theory Spec2Isabelle
  imports Complex_Main "HOL-Library.AList"
begin

section \<open>The pepnet Encoder (pepnet/encoder.py)\<close>

text \<open>
  A shallow embedding of the class \<open>Encoder\<close>.  Python strings are \<open>string\<close>s, a
  one-character token is a string of length 1, the two dictionaries of the class are
  association lists in insertion order (\<open>_add_token\<close> refuses a key that is already
  there, so their length is the number of keys), numpy arrays are nested lists, and
  every exception the code can raise is a value of \<open>error\<close>.  Division is Python 3's
  true division.  Floating-point numbers are idealised: a finite float is an exact
  rational, and \<open>0/0\<close> is \<open>NaN\<close>.
\<close>

subsection \<open>Exceptions\<close>

datatype error =
    AssertionError
  | EmptyMax
    \<comment> \<open>ValueError: max() arg is an empty sequence\<close>
  | TooLong nat int string
    \<comment> \<open>ValueError: Peptide(s) of length %d when max = %d (example '%s')\<close>
  | WrongLength int string nat
    \<comment> \<open>ValueError: Expected all peptides to have length %d, '%s' has length %d\<close>
  | KeyError string
  | IndexError
  | NegativeDimensions
    \<comment> \<open>ValueError: negative dimensions are not allowed\<close>
  | BroadcastError nat nat
    \<comment> \<open>ValueError: could not broadcast input array from shape (s,) into shape (t,)\<close>
  | ZeroSizeMax
    \<comment> \<open>ValueError: zero-size array to reduction operation maximum which has no identity\<close>
  | ConcatenateError nat nat
    \<comment> \<open>ValueError: all the input array dimensions except for the concatenation axis must match\<close>

text \<open>The two errors of \<open>_validate_peptide_lengths\<close> that report a length mismatch.\<close>

fun is_length_mismatch :: "error \<Rightarrow> bool" where
  "is_length_mismatch (TooLong _ _ _) = True"
| "is_length_mismatch (WrongLength _ _ _) = True"
| "is_length_mismatch _ = False"

text \<open>A loop whose body may raise: the first exception ends it.\<close>

fun for_each :: "('a \<Rightarrow> 's \<Rightarrow> error + 's) \<Rightarrow> 'a list \<Rightarrow> 's \<Rightarrow> error + 's" where
  "for_each f [] s = Inr s"
| "for_each f (x # xs) s = (case f x s of Inl e \<Rightarrow> Inl e | Inr s' \<Rightarrow> for_each f xs s')"

text \<open>\<open>d[k]\<close> on a dictionary.\<close>

definition dict_get :: "(string \<times> 'v) list \<Rightarrow> string \<Rightarrow> error + 'v" where
  "dict_get d k = (case map_of d k of None \<Rightarrow> Inl (KeyError k) | Some v \<Rightarrow> Inr v)"

text \<open>\<open>max(...)\<close> over a generator.\<close>

fun py_max :: "nat list \<Rightarrow> error + nat" where
  "py_max [] = Inl EmptyMax"
| "py_max (x # xs) = Inr (fold max xs x)"

subsection \<open>The vocabulary\<close>

record amino_acid =
  letter :: string
  full_name :: string

record Encoder =
  amino_acid_alphabet :: "amino_acid list"
  variable_length_sequences :: bool
  add_start_tokens :: bool
  add_stop_tokens :: bool
  add_normalized_position :: bool
  add_normalized_centrality :: bool
  tokens_to_names :: "(string \<times> string) list"
  index_dict :: "(string \<times> nat) list"

definition add_token :: "string \<Rightarrow> string \<Rightarrow> Encoder \<Rightarrow> error + Encoder" where
  "add_token token name self =
     (if length token \<noteq> 1 then Inl AssertionError
      else if token \<in> set (map fst (index_dict self)) then Inl AssertionError
      else if token \<in> set (map fst (tokens_to_names self)) then Inl AssertionError
      else Inr (self\<lparr>index_dict := index_dict self @ [(token, length (index_dict self))],
                     tokens_to_names := tokens_to_names self @ [(token, name)]\<rparr>))"

definition add_token_if :: "bool \<Rightarrow> string \<Rightarrow> string \<Rightarrow> Encoder \<Rightarrow> error + Encoder" where
  "add_token_if b token name self = (if b then add_token token name self else Inr self)"

definition Encoder_init ::
  "amino_acid list \<Rightarrow> bool \<Rightarrow> bool \<Rightarrow> bool \<Rightarrow> bool \<Rightarrow> bool \<Rightarrow> error + Encoder" where
  "Encoder_init alphabet variable_length start stop position centrality =
     (case add_token_if variable_length ''-'' ''Gap''
             \<lparr>amino_acid_alphabet = alphabet,
              variable_length_sequences = variable_length,
              add_start_tokens = start,
              add_stop_tokens = stop,
              add_normalized_position = position,
              add_normalized_centrality = centrality,
              tokens_to_names = [],
              index_dict = []\<rparr> of
        Inl e \<Rightarrow> Inl e
      | Inr self1 \<Rightarrow>
     (case add_token_if start ''^'' ''Start'' self1 of
        Inl e \<Rightarrow> Inl e
      | Inr self2 \<Rightarrow>
     (case add_token_if stop ''$'' ''Stop'' self2 of
        Inl e \<Rightarrow> Inl e
      | Inr self3 \<Rightarrow>
          for_each (\<lambda>aa. add_token (letter aa) (full_name aa)) alphabet self3)))"

definition tokens :: "Encoder \<Rightarrow> string list" where
  "tokens self = map fst (tokens_to_names self)"

definition amino_acid_names :: "Encoder \<Rightarrow> string list" where
  "amino_acid_names self = map snd (tokens_to_names self)"

definition len :: "Encoder \<Rightarrow> nat" where
  "len self = length (tokens self)"

subsection \<open>Sequence preparation\<close>

text \<open>\<open>if padded_peptide_length:\<close> is false for \<open>None\<close> and for 0.\<close>

fun truthy :: "int option \<Rightarrow> bool" where
  "truthy None = False"
| "truthy (Some n) = (n \<noteq> 0)"

definition increment :: "int option \<Rightarrow> int option" where
  "increment padded = (if truthy padded then map_option (\<lambda>n. n + 1) padded else padded)"

text \<open>\<open>p + "-" * (n - len(p))\<close>; a string times a negative number is empty.\<close>

definition pad :: "int \<Rightarrow> string \<Rightarrow> string" where
  "pad n p = p @ replicate (nat (n - int (length p))) CHR ''-''"

definition prepare_sequences :: "Encoder \<Rightarrow> string list \<Rightarrow> int option \<Rightarrow> string list" where
  "prepare_sequences self peptides padded_peptide_length =
     (let (peptides1, padded1) =
            (if add_start_tokens self
             then (map (\<lambda>p. ''^'' @ p) peptides, increment padded_peptide_length)
             else (peptides, padded_peptide_length));
          (peptides2, padded2) =
            (if add_stop_tokens self
             then (map (\<lambda>p. p @ ''$'') peptides1, increment padded1)
             else (peptides1, padded1))
      in case padded2 of
           None \<Rightarrow> peptides2
         | Some n \<Rightarrow> if n \<noteq> 0 then map (pad n) peptides2 else peptides2)"

subsection \<open>Length validation\<close>

definition first_where :: "('a \<Rightarrow> bool) \<Rightarrow> 'a list \<Rightarrow> error + 'a" where
  "first_where P xs = (case filter P xs of [] \<Rightarrow> Inl IndexError | x # _ \<Rightarrow> Inr x)"

definition validate_peptide_lengths :: "Encoder \<Rightarrow> string list \<Rightarrow> int option \<Rightarrow> error + int" where
  "validate_peptide_lengths self peptides max_peptide_length =
     (case (case max_peptide_length of
              None \<Rightarrow> map_sum id int (py_max (map length peptides))
            | Some m \<Rightarrow> Inr m) of
        Inl e \<Rightarrow> Inl e
      | Inr m \<Rightarrow>
          if variable_length_sequences self then
            (case py_max (map length peptides) of
               Inl e \<Rightarrow> Inl e
             | Inr max_observed_length \<Rightarrow>
                 if int max_observed_length > m then
                   (case first_where (\<lambda>p. length p = max_observed_length) peptides of
                      Inl e \<Rightarrow> Inl e
                    | Inr example \<Rightarrow> Inl (TooLong max_observed_length m example))
                 else Inr m)
          else if \<exists>p \<in> set peptides. int (length p) \<noteq> m then
            (case first_where (\<lambda>p. int (length p) \<noteq> m) peptides of
               Inl e \<Rightarrow> Inl e
             | Inr example \<Rightarrow> Inl (WrongLength m example (length example)))
          else Inr m)"

definition validate_and_prepare_peptides ::
  "Encoder \<Rightarrow> string list \<Rightarrow> int option \<Rightarrow> error + string list \<times> int" where
  "validate_and_prepare_peptides self peptides max_peptide_length =
     (case validate_peptide_lengths self peptides max_peptide_length of
        Inl e \<Rightarrow> Inl e
      | Inr m \<Rightarrow>
          Inr (prepare_sequences self peptides None,
               m + of_bool (add_start_tokens self) + of_bool (add_stop_tokens self)))"

subsection \<open>Arrays\<close>

text \<open>
  \<open>np.zeros\<close> with a shape of two or three dimensions, of which the second may be
  negative (it is computed from the caller's \<open>max_peptide_length\<close>); \<open>z\<close> is the
  zero of the dtype.
\<close>

definition np_zeros2 :: "'a \<Rightarrow> nat \<Rightarrow> int \<Rightarrow> error + 'a list list" where
  "np_zeros2 z n m =
     (if m < 0 then Inl NegativeDimensions else Inr (replicate n (replicate (nat m) z)))"

definition np_zeros3 :: "'a \<Rightarrow> nat \<Rightarrow> int \<Rightarrow> nat \<Rightarrow> error + 'a list list list" where
  "np_zeros3 z n m c =
     (if m < 0 then Inl NegativeDimensions
      else Inr (replicate n (replicate (nat m) (replicate c z))))"

text \<open>\<open>X[i, j] = v\<close> and \<open>X[i, j, k] = v\<close>.\<close>

definition setitem2 :: "nat \<Rightarrow> nat \<Rightarrow> 'a \<Rightarrow> 'a list list \<Rightarrow> error + 'a list list" where
  "setitem2 i j v X =
     (if i < length X \<and> j < length (X ! i) then Inr (X[i := (X ! i)[j := v]])
      else Inl IndexError)"

definition setitem3 ::
  "nat \<Rightarrow> nat \<Rightarrow> nat \<Rightarrow> 'a \<Rightarrow> 'a list list list \<Rightarrow> error + 'a list list list" where
  "setitem3 i j k v X =
     (if i < length X \<and> j < length (X ! i) \<and> k < length (X ! i ! j)
      then Inr (X[i := (X ! i)[j := (X ! i ! j)[k := v]]])
      else Inl IndexError)"

text \<open>
  Assigning a one-dimensional array to a slice of \<open>t\<close> cells: the shapes are equal, or
  the source has one element, which is repeated; anything else cannot be broadcast.
\<close>

definition broadcast :: "'a list \<Rightarrow> nat \<Rightarrow> error + 'a list" where
  "broadcast src t =
     (if length src = t then Inr src
      else case src of
             [x] \<Rightarrow> Inr (replicate t x)
           | _ \<Rightarrow> Inl (BroadcastError (length src) t))"

text \<open>\<open>X[i, j, :] = row\<close>, \<open>A[i, :l] = row\<close> and \<open>A[i, :] = row\<close>.\<close>

definition setrow3 ::
  "nat \<Rightarrow> nat \<Rightarrow> 'a list \<Rightarrow> 'a list list list \<Rightarrow> error + 'a list list list" where
  "setrow3 i j row X =
     (if i < length X \<and> j < length (X ! i) then
        (case broadcast row (length (X ! i ! j)) of
           Inl e \<Rightarrow> Inl e
         | Inr r \<Rightarrow> Inr (X[i := (X ! i)[j := r]]))
      else Inl IndexError)"

definition setprefix2 :: "nat \<Rightarrow> nat \<Rightarrow> 'a list \<Rightarrow> 'a list list \<Rightarrow> error + 'a list list" where
  "setprefix2 i l row A =
     (if i < length A then
        (case broadcast row (min l (length (A ! i))) of
           Inl e \<Rightarrow> Inl e
         | Inr r \<Rightarrow> Inr (A[i := r @ drop l (A ! i)]))
      else Inl IndexError)"

definition setrow2 :: "nat \<Rightarrow> 'a list \<Rightarrow> 'a list list \<Rightarrow> error + 'a list list" where
  "setrow2 i row A =
     (if i < length A then
        (case broadcast row (length (A ! i)) of
           Inl e \<Rightarrow> Inl e
         | Inr r \<Rightarrow> Inr (A[i := r]))
      else Inl IndexError)"

text \<open>\<open>A[i, k] += v\<close>.\<close>

definition additem2 :: "nat \<Rightarrow> nat \<Rightarrow> rat \<Rightarrow> rat list list \<Rightarrow> error + rat list list" where
  "additem2 i k v A =
     (if i < length A \<and> k < length (A ! i) then Inr (A[i := (A ! i)[k := A ! i ! k + v]])
      else Inl IndexError)"

text \<open>The second dimension of an array that has a first row.\<close>

definition dim1 :: "'a list list \<Rightarrow> nat" where
  "dim1 A = (case A of [] \<Rightarrow> 0 | r # _ \<Rightarrow> length r)"

text \<open>
  \<open>np.dstack([X] + extra_arrays)\<close>: every two-dimensional array of \<open>extra_arrays\<close>
  becomes one more channel on the last axis of \<open>X\<close>; the first two dimensions must agree.
\<close>

definition np_dstack :: "'a list list list \<Rightarrow> 'a list list list \<Rightarrow> error + 'a list list list" where
  "np_dstack X extra_arrays =
     (case filter (\<lambda>E. length E \<noteq> length X \<or> dim1 E \<noteq> dim1 X) extra_arrays of
        E # _ \<Rightarrow> Inl (ConcatenateError (dim1 X) (dim1 E))
      | [] \<Rightarrow>
          Inr (map (\<lambda>i. map (\<lambda>j. X ! i ! j @ map (\<lambda>E. E ! i ! j) extra_arrays) [0..<dim1 X])
                 [0..<length X]))"

subsection \<open>Index encodings\<close>

fun map_err :: "('a \<Rightarrow> error + 'b) \<Rightarrow> 'a list \<Rightarrow> error + 'b list" where
  "map_err f [] = Inr []"
| "map_err f (x # xs) =
     (case f x of
        Inl e \<Rightarrow> Inl e
      | Inr y \<Rightarrow> (case map_err f xs of Inl e \<Rightarrow> Inl e | Inr ys \<Rightarrow> Inr (y # ys)))"

definition encode_index_lists :: "Encoder \<Rightarrow> string list \<Rightarrow> error + nat list list" where
  "encode_index_lists self peptides =
     map_err (\<lambda>peptide. map_err (\<lambda>amino_acid. dict_get (index_dict self) [amino_acid]) peptide)
       (prepare_sequences self peptides None)"

definition encode_index_array ::
  "Encoder \<Rightarrow> string list \<Rightarrow> int option \<Rightarrow> error + nat list list" where
  "encode_index_array self peptides max_peptide_length =
     (if add_normalized_centrality self then Inl AssertionError
      else if add_normalized_position self then Inl AssertionError
      else
        case validate_and_prepare_peptides self peptides max_peptide_length of
          Inl e \<Rightarrow> Inl e
        | Inr (prepared, effective_length) \<Rightarrow>
            (case np_zeros2 0 (length prepared) effective_length of
               Inl e \<Rightarrow> Inl e
             | Inr X_index \<Rightarrow>
                 for_each
                   (\<lambda>(i, peptide).
                      for_each
                        (\<lambda>(j, amino_acid) X.
                           case dict_get (index_dict self) [amino_acid] of
                             Inl e \<Rightarrow> Inl e
                           | Inr v \<Rightarrow> setitem2 i j v X)
                        (enumerate 0 peptide))
                   (enumerate 0 prepared) X_index))"

subsection \<open>Extra features\<close>

datatype fval = Val rat | NaN | PosInf | NegInf

text \<open>Division of two finite floats, as numpy does it (a warning, no exception).\<close>

definition fdiv :: "rat \<Rightarrow> rat \<Rightarrow> fval" where
  "fdiv x y =
     (if y \<noteq> 0 then Val (x / y)
      else if x = 0 then NaN else if 0 < x then PosInf else NegInf)"

definition centrality_values :: "nat \<Rightarrow> fval list" where
  "centrality_values l =
     (let center = (rat_of_nat l - 1) / 2
      in map (\<lambda>j. fdiv \<bar>rat_of_nat j - center\<bar> center) [0..<l])"

definition position_values :: "nat \<Rightarrow> fval list" where
  "position_values l = map (\<lambda>j. fdiv (rat_of_nat j) (rat_of_nat l)) [0..<l]"

definition add_extra_features ::
  "Encoder \<Rightarrow> fval list list list \<Rightarrow> string list \<Rightarrow> error + fval list list list" where
  "add_extra_features self X peptides =
     (if \<not> add_normalized_position self \<and> \<not> add_normalized_centrality self then Inr X
      else
        let lengths = map length peptides; n = length X in
        case (case lengths of [] \<Rightarrow> Inl ZeroSizeMax | l # ls \<Rightarrow> Inr (fold max ls l)) of
          Inl e \<Rightarrow> Inl e
        | Inr max_length \<Rightarrow>
            (case for_each
                    (\<lambda>(i, l) (X_centrality, X_position).
                       case setprefix2 i l (centrality_values l) X_centrality of
                         Inl e \<Rightarrow> Inl e
                       | Inr X_centrality1 \<Rightarrow>
                           (case setrow2 i (position_values l) X_position of
                              Inl e \<Rightarrow> Inl e
                            | Inr X_position1 \<Rightarrow> Inr (X_centrality1, X_position1)))
                    (enumerate 0 lengths)
                    (replicate n (replicate max_length (Val 0)),
                     replicate n (replicate max_length (Val 0))) of
               Inl e \<Rightarrow> Inl e
             | Inr (X_centrality, X_position) \<Rightarrow>
                 np_dstack X
                   ((if add_normalized_centrality self then [X_centrality] else []) @
                    (if add_normalized_position self then [X_position] else []))))"

subsection \<open>One-hot encoding\<close>

text \<open>The array has dtype bool; \<open>True\<close> and \<open>False\<close> are written 1 and 0.\<close>

definition encode_onehot ::
  "Encoder \<Rightarrow> string list \<Rightarrow> int option \<Rightarrow> error + fval list list list" where
  "encode_onehot self peptides max_peptide_length =
     (case validate_and_prepare_peptides self peptides max_peptide_length of
        Inl e \<Rightarrow> Inl e
      | Inr (prepared, effective_length) \<Rightarrow>
          (case np_zeros3 (Val 0) (length prepared) effective_length
                  (length (index_dict self)) of
             Inl e \<Rightarrow> Inl e
           | Inr X0 \<Rightarrow>
               (case for_each
                       (\<lambda>(i, peptide).
                          for_each
                            (\<lambda>(j, amino_acid) X.
                               case dict_get (index_dict self) [amino_acid] of
                                 Inl e \<Rightarrow> Inl e
                               | Inr k \<Rightarrow> setitem3 i j k (Val 1) X)
                            (enumerate 0 peptide))
                       (enumerate 0 prepared) X0 of
                  Inl e \<Rightarrow> Inl e
                | Inr X \<Rightarrow> add_extra_features self X prepared)))"

subsection \<open>Pairwise-property encodings\<close>

text \<open>
  The tables of the package pepdata, which is not part of this repository, are
  parameters: the canonical letter-to-index dictionary and the two property matrices.
\<close>

record pepdata =
  amino_acid_letter_indices :: "(string \<times> nat) list"
  pmbec_matrix :: "fval list list"
  blosum62_matrix :: "fval list list"

text \<open>\<open>M[i, :]\<close> and \<open>row[indices]\<close>.\<close>

definition getrow :: "'a list list \<Rightarrow> nat \<Rightarrow> error + 'a list" where
  "getrow M i = (if i < length M then Inr (M ! i) else Inl IndexError)"

definition take_indices :: "'a list \<Rightarrow> nat list \<Rightarrow> error + 'a list" where
  "take_indices row indices =
     (if \<forall>i \<in> set indices. i < length row then Inr (map (\<lambda>i. row ! i) indices)
      else Inl IndexError)"

definition encode_from_pairwise_properties ::
  "pepdata \<Rightarrow> Encoder \<Rightarrow> string list \<Rightarrow> int option \<Rightarrow> fval list list \<Rightarrow>
     error + fval list list list" where
  "encode_from_pairwise_properties env self peptides max_peptide_length property_matrix =
     (case validate_and_prepare_peptides self peptides max_peptide_length of
        Inl e \<Rightarrow> Inl e
      | Inr (prepared, effective_length) \<Rightarrow>
     (case np_zeros3 (Val 0) (length prepared) effective_length 20 of
        Inl e \<Rightarrow> Inl e
      | Inr X0 \<Rightarrow>
     (case map_err (\<lambda>aa. dict_get (amino_acid_letter_indices env) (letter aa))
             (amino_acid_alphabet self) of
        Inl e \<Rightarrow> Inl e
      | Inr alphabet_indices \<Rightarrow>
     (case for_each
             (\<lambda>aa aa_to_feature_row.
                case dict_get (amino_acid_letter_indices env) (letter aa) of
                  Inl e \<Rightarrow> Inl e
                | Inr aa_idx \<Rightarrow>
                    (case getrow property_matrix aa_idx of
                       Inl e \<Rightarrow> Inl e
                     | Inr row \<Rightarrow>
                         (case take_indices row alphabet_indices of
                            Inl e \<Rightarrow> Inl e
                          | Inr row1 \<Rightarrow>
                              Inr (AList.update (letter aa) row1 aa_to_feature_row))))
             (amino_acid_alphabet self) [] of
        Inl e \<Rightarrow> Inl e
      | Inr table0 \<Rightarrow>
          let aa_to_feature_row =
                fold (\<lambda>token. AList.update token (replicate (length alphabet_indices) (Val 0)))
                  [''-'', ''^'', ''$''] table0
          in
     (case for_each
             (\<lambda>(i, peptide).
                for_each
                  (\<lambda>(j, amino_acid) X.
                     case dict_get aa_to_feature_row [amino_acid] of
                       Inl e \<Rightarrow> Inl e
                     | Inr row \<Rightarrow> setrow3 i j row X)
                  (enumerate 0 peptide))
             (enumerate 0 prepared) X0 of
        Inl e \<Rightarrow> Inl e
      | Inr X \<Rightarrow> add_extra_features self X prepared)))))"

definition encode_pmbec ::
  "pepdata \<Rightarrow> Encoder \<Rightarrow> string list \<Rightarrow> int option \<Rightarrow> error + fval list list list" where
  "encode_pmbec env self peptides max_peptide_length =
     encode_from_pairwise_properties env self peptides max_peptide_length (pmbec_matrix env)"

definition encode_blosum ::
  "pepdata \<Rightarrow> Encoder \<Rightarrow> string list \<Rightarrow> int option \<Rightarrow> error + fval list list list" where
  "encode_blosum env self peptides max_peptide_length =
     encode_from_pairwise_properties env self peptides max_peptide_length (blosum62_matrix env)"

subsection \<open>FOFE encoding\<close>

definition encode_FOFE :: "Encoder \<Rightarrow> string list \<Rightarrow> rat \<Rightarrow> bool \<Rightarrow> error + rat list list" where
  "encode_FOFE self peptides alpha bidirectional =
     (let prepared = prepare_sequences self peptides None;
          n_peptides = length prepared;
          n_symbols = length (index_dict self);
          result0 = (if bidirectional then replicate n_peptides (replicate (2 * n_symbols) 0)
                     else replicate n_peptides (replicate n_symbols 0))
      in for_each
           (\<lambda>(i, p).
              let l = length p in
              for_each
                (\<lambda>(j, amino_acid) result.
                   case dict_get (index_dict self) [amino_acid] of
                     Inl e \<Rightarrow> Inl e
                   | Inr aa_idx \<Rightarrow>
                       (case additem2 i aa_idx (alpha ^ (l - j - 1)) result of
                          Inl e \<Rightarrow> Inl e
                        | Inr result1 \<Rightarrow>
                            if bidirectional then additem2 i (n_symbols + aa_idx) (alpha ^ j) result1
                            else Inr result1))
                (enumerate 0 p))
           (enumerate 0 prepared) result0)"

subsection \<open>Notions used in the statements\<close>

text \<open>
  The length every raw peptide is checked against: \<open>max_length\<close>, or the length of
  the longest raw peptide when it is omitted.
\<close>

definition resolved_max_length :: "string list \<Rightarrow> int option \<Rightarrow> int" where
  "resolved_max_length peptides max_length =
     (case max_length of None \<Rightarrow> int (Max (set (map length peptides))) | Some m \<Rightarrow> m)"

text \<open>
  The length rules: with variable-length sequences no raw peptide is longer than the
  resolved maximum, without them every raw peptide has exactly that length.
\<close>

definition length_rules_violated :: "Encoder \<Rightarrow> string list \<Rightarrow> int option \<Rightarrow> bool" where
  "length_rules_violated self peptides max_length =
     (if variable_length_sequences self
      then \<exists>p \<in> set peptides. int (length p) > resolved_max_length peptides max_length
      else \<exists>p \<in> set peptides. int (length p) \<noteq> resolved_max_length peptides max_length)"

text \<open>The structural tokens of a configuration, in insertion order.\<close>

definition structural_tokens :: "bool \<Rightarrow> bool \<Rightarrow> bool \<Rightarrow> string list" where
  "structural_tokens variable_length start stop =
     (if variable_length then [''-''] else []) @ (if start then [''^''] else []) @
     (if stop then [''$''] else [])"

text \<open>
  What construction establishes for the two dictionaries: the index of a token is its
  position, no token occurs twice, and every token is one character.
\<close>

definition vocabulary_ok :: "Encoder \<Rightarrow> bool" where
  "vocabulary_ok self \<longleftrightarrow>
     index_dict self = zip (tokens self) [0..<length (tokens self)] \<and>
     distinct (tokens self) \<and> (\<forall>t \<in> set (tokens self). length t = 1)"

definition config_eq :: "Encoder \<Rightarrow> Encoder \<Rightarrow> bool" where
  "config_eq a b \<longleftrightarrow>
     amino_acid_alphabet a = amino_acid_alphabet b \<and>
     variable_length_sequences a = variable_length_sequences b \<and>
     add_start_tokens a = add_start_tokens b \<and>
     add_stop_tokens a = add_stop_tokens b \<and>
     add_normalized_position a = add_normalized_position b \<and>
     add_normalized_centrality a = add_normalized_centrality b"

text \<open>A peptide with the start and stop tokens of the configuration, and no padding.\<close>

definition affix :: "Encoder \<Rightarrow> string \<Rightarrow> string" where
  "affix self p =
     (if add_start_tokens self then ''^'' else []) @ p @
     (if add_stop_tokens self then ''$'' else [])"

subsection \<open>Example encoders\<close>

definition example_alphabet :: "amino_acid list" where
  "example_alphabet =
     [\<lparr>letter = ''A'', full_name = ''Alanine''\<rparr>,
      \<lparr>letter = ''C'', full_name = ''Cysteine''\<rparr>,
      \<lparr>letter = ''D'', full_name = ''Aspartic Acid''\<rparr>]"

text \<open>The encoder that \<open>Encoder_init\<close> builds for \<open>example_alphabet\<close>.\<close>

definition example_encoder :: "bool \<Rightarrow> bool \<Rightarrow> bool \<Rightarrow> bool \<Rightarrow> bool \<Rightarrow> Encoder" where
  "example_encoder variable_length start stop position centrality =
     \<lparr>amino_acid_alphabet = example_alphabet,
      variable_length_sequences = variable_length,
      add_start_tokens = start,
      add_stop_tokens = stop,
      add_normalized_position = position,
      add_normalized_centrality = centrality,
      tokens_to_names =
        (if variable_length then [(''-'', ''Gap'')] else []) @
        (if start then [(''^'', ''Start'')] else []) @
        (if stop then [(''$'', ''Stop'')] else []) @
        [(''A'', ''Alanine''), (''C'', ''Cysteine''), (''D'', ''Aspartic Acid'')],
      index_dict =
        zip (structural_tokens variable_length start stop @ [''A'', ''C'', ''D''])
          [0..<length (structural_tokens variable_length start stop) + 3]\<rparr>"

text \<open>
  A stand-in for the tables of pepdata, of the same shape: the twenty canonical
  letters and two 20 by 20 matrices.  The entries are not pepdata's.
\<close>

definition example_pepdata :: pepdata where
  "example_pepdata =
     \<lparr>amino_acid_letter_indices = zip (map (\<lambda>c. [c]) ''ARNDCQEGHILKMFPSTWYV'') [0..<20],
      pmbec_matrix = map (\<lambda>i. map (\<lambda>j. Val (if i = j then 1 else 0)) [0..<20]) [0..<20],
      blosum62_matrix = map (\<lambda>i. map (\<lambda>j. Val (if i = j then 4 else - 1)) [0..<20]) [0..<20]\<rparr>"

text \<open>The inverse of the index table: from an index back to its token.\<close>

definition decode_token :: "Encoder \<Rightarrow> nat \<Rightarrow> string option" where
  "decode_token self i = map_of (map (\<lambda>(token, index). (index, token)) (index_dict self)) i"

text \<open>The vector of \<open>n\<close> channels whose only 1 is at channel \<open>k\<close>.\<close>

definition one_hot :: "nat \<Rightarrow> nat \<Rightarrow> fval list" where
  "one_hot n k = (replicate n (Val 0))[k := Val 1]"

text \<open>The same encoder with both extra features switched off.\<close>

definition without_extra_features :: "Encoder \<Rightarrow> Encoder" where
  "without_extra_features self =
     self\<lparr>add_normalized_position := False, add_normalized_centrality := False\<rparr>"

text \<open>
  The two scalars at offset \<open>j\<close> for a peptide of length \<open>l\<close>: \<open>|j - c| / c\<close> with
  \<open>c = (l - 1) / 2\<close>, and \<open>j / l\<close>; both are 0 beyond the peptide.
\<close>

definition centrality_at :: "nat \<Rightarrow> nat \<Rightarrow> fval" where
  "centrality_at l j =
     (if j < l then fdiv \<bar>rat_of_nat j - (rat_of_nat l - 1) / 2\<bar> ((rat_of_nat l - 1) / 2)
      else Val 0)"

definition position_at :: "nat \<Rightarrow> nat \<Rightarrow> fval" where
  "position_at l j = (if j < l then fdiv (rat_of_nat j) (rat_of_nat l) else Val 0)"

definition extra_channels :: "Encoder \<Rightarrow> nat \<Rightarrow> nat \<Rightarrow> fval list" where
  "extra_channels self l j =
     (if add_normalized_centrality self then [centrality_at l j] else []) @
     (if add_normalized_position self then [position_at l j] else [])"

text \<open>
  \<open>Y\<close> is \<open>X\<close> with the enabled extra channels appended to every cell, centrality
  before position, computed for the lengths of the given strings.
\<close>

definition stacked ::
  "Encoder \<Rightarrow> string list \<Rightarrow> fval list list list \<Rightarrow> fval list list list \<Rightarrow> bool" where
  "stacked self strings X Y \<longleftrightarrow>
     length Y = length X \<and>
     (\<forall>i<length X. length (Y ! i) = length (X ! i) \<and>
        (\<forall>j<length (X ! i).
           Y ! i ! j = X ! i ! j @ extra_channels self (length (strings ! i)) j))"

section \<open>Verification\<close>

subsection \<open>Length validation\<close>

lemma py_max_empty: "py_max xs = Inl e \<longleftrightarrow> xs = [] \<and> e = EmptyMax"
  by (cases xs) auto

lemma fold_max_Max: "fold max xs x = Max (set (x # xs))"
  by (simp only: Max.set_eq_fold)

lemma py_max_Max: "py_max xs = Inr m \<longleftrightarrow> xs \<noteq> [] \<and> m = Max (set xs)"
proof (cases xs)
  case Nil
  then show ?thesis by simp
next
  case (Cons a list)
  then show ?thesis using fold_max_Max[of list a] by auto
qed

lemma first_where_Inr: "\<exists>x \<in> set xs. P x \<Longrightarrow> \<exists>x. first_where P xs = Inr x \<and> x \<in> set xs \<and> P x"
proof -
  assume "\<exists>x \<in> set xs. P x"
  then have "filter P xs \<noteq> []" by (simp add: filter_empty_conv)
  then obtain y ys where f: "filter P xs = y # ys" by (cases "filter P xs") auto
  have "y \<in> set (filter P xs)" unfolding f by simp
  then have "y \<in> set xs \<and> P y" by simp
  then show ?thesis using f by (simp add: first_where_def)
qed

lemma validate_variable:
  assumes "variable_length_sequences self"
  shows "validate_peptide_lengths self ps ml =
     (if ps = [] then Inl EmptyMax
      else if \<exists>p \<in> set ps. int (length p) > resolved_max_length ps ml
      then Inl (TooLong (Max (set (map length ps))) (resolved_max_length ps ml)
             (hd (filter (\<lambda>p. length p = Max (set (map length ps))) ps)))
      else Inr (resolved_max_length ps ml))"
proof (cases "ps = []")
  case True
  then show ?thesis using assms
    by (cases ml) (simp_all add: validate_peptide_lengths_def)
next
  case False
  define M where "M = Max (set (map length ps))"
  have pm: "py_max (map length ps) = Inr M"
    using False by (simp add: py_max_Max M_def)
  have Meq: "Max (length ` set ps) = M" by (simp add: M_def)
  have Mle: "\<forall>p \<in> set ps. length p \<le> M" by (simp add: M_def)
  have "M \<in> set (map length ps)" unfolding M_def using False
    by (intro Max_in) auto
  then have ex: "\<exists>p \<in> set ps. length p = M" by auto
  have viol: "(\<exists>p \<in> set ps. int (length p) > m) \<longleftrightarrow> int M > m" for m
    using Mle ex by force
  obtain x where x: "first_where (\<lambda>p. length p = M) ps = Inr x"
    using first_where_Inr[OF ex] by blast
  then have hdx: "hd (filter (\<lambda>p. length p = M) ps) = x"
    by (auto simp: first_where_def split: list.splits)
  show ?thesis
  proof (cases ml)
    case None
    then show ?thesis using assms False pm Mle
      by (auto simp: validate_peptide_lengths_def resolved_max_length_def Meq)
  next
    case (Some m)
    then show ?thesis using assms False pm viol[of m] x hdx
      by (auto simp: validate_peptide_lengths_def resolved_max_length_def Meq)
  qed
qed

lemma validate_fixed:
  assumes "\<not> variable_length_sequences self"
  shows "validate_peptide_lengths self ps ml =
     (if ps = [] \<and> ml = None then Inl EmptyMax
      else if \<exists>p \<in> set ps. int (length p) \<noteq> resolved_max_length ps ml
      then Inl (WrongLength (resolved_max_length ps ml)
             (hd (filter (\<lambda>p. int (length p) \<noteq> resolved_max_length ps ml) ps))
             (length (hd (filter (\<lambda>p. int (length p) \<noteq> resolved_max_length ps ml) ps))))
      else Inr (resolved_max_length ps ml))"
proof -
  define m where "m = resolved_max_length ps ml"
  have first: "(case ml of None \<Rightarrow> map_sum id int (py_max (map length ps)) | Some m \<Rightarrow> Inr m) =
     (if ps = [] \<and> ml = None then Inl EmptyMax else Inr m)"
    using fold_max_Max[of "map length (tl ps)" "length (hd ps)"]
    by (cases ml; cases ps) (simp_all add: m_def resolved_max_length_def)
  show ?thesis
  proof (cases "\<exists>p \<in> set ps. int (length p) \<noteq> m")
    case True
    from first_where_Inr[OF True] obtain x where
      x: "first_where (\<lambda>p. int (length p) \<noteq> m) ps = Inr x" by blast
    then have hdx: "hd (filter (\<lambda>p. int (length p) \<noteq> m) ps) = x"
      by (auto simp: first_where_def split: list.splits)
    show ?thesis using assms True x hdx first
      by (auto simp: validate_peptide_lengths_def m_def[symmetric])
  next
    case False
    then show ?thesis using assms first
      by (auto simp: validate_peptide_lengths_def m_def[symmetric])
  qed
qed

text \<open>
  Claim C1.  \<open>_validate_and_prepare_peptides\<close> raises one of the two length-mismatch
  errors if and only if the length rules are violated, where an omitted \<open>max_length\<close>
  stands for the length of the longest raw peptide: with variable-length sequences some
  raw peptide is longer than \<open>max_length\<close>, without them some raw peptide's length
  differs from it.  When it returns, the effective length is the resolved
  \<open>max_length\<close> plus 1 for each of the start and stop tokens that is enabled.
\<close>

theorem validate_and_prepare_length_rules:
  "((\<exists>e. validate_and_prepare_peptides self ps ml = Inl e \<and> is_length_mismatch e) \<longleftrightarrow>
      length_rules_violated self ps ml) \<and>
   (\<forall>prepared L. validate_and_prepare_peptides self ps ml = Inr (prepared, L) \<longrightarrow>
      L = resolved_max_length ps ml + of_bool (add_start_tokens self)
            + of_bool (add_stop_tokens self))"
proof (cases "variable_length_sequences self")
  case True
  show ?thesis
    unfolding validate_and_prepare_peptides_def validate_variable[OF True] length_rules_violated_def
    using True by auto
next
  case False
  show ?thesis
    unfolding validate_and_prepare_peptides_def validate_fixed[OF False] length_rules_violated_def
    using False by auto
qed

theorem validate_and_prepare_length_rules_witness:
  "length_rules_violated (example_encoder False False False False False) [''AC'', ''ACD''] None \<and>
   (\<exists>e. validate_and_prepare_peptides (example_encoder False False False False False)
          [''AC'', ''ACD''] None = Inl e \<and> is_length_mismatch e) \<and>
   validate_and_prepare_peptides (example_encoder True True False False False)
     [''AC'', ''ACD''] None = Inr ([''^AC'', ''^ACD''], 4) \<and>
   (4::int) = resolved_max_length [''AC'', ''ACD''] None + of_bool True + of_bool False"
proof -
  have v: "length_rules_violated (example_encoder False False False False False)
             [''AC'', ''ACD''] None"
    by (simp add: length_rules_violated_def resolved_max_length_def example_encoder_def)
  have r: "validate_and_prepare_peptides (example_encoder True True False False False)
             [''AC'', ''ACD''] None = Inr ([''^AC'', ''^ACD''], 4)"
    by (simp add: validate_and_prepare_peptides_def validate_peptide_lengths_def
          prepare_sequences_def increment_def example_encoder_def)
  have a: "add_start_tokens (example_encoder True True False False False) = True"
          "add_stop_tokens (example_encoder True True False False False) = False"
    by (simp_all add: example_encoder_def)
  from validate_and_prepare_length_rules
         [of "example_encoder False False False False False" "[''AC'', ''ACD'']" None] v
  have e: "\<exists>e. validate_and_prepare_peptides (example_encoder False False False False False)
          [''AC'', ''ACD''] None = Inl e \<and> is_length_mismatch e"
    by blast
  from validate_and_prepare_length_rules
         [of "example_encoder True True False False False" "[''AC'', ''ACD'']" None] r
  have "(4::int) = resolved_max_length [''AC'', ''ACD''] None
           + of_bool (add_start_tokens (example_encoder True True False False False))
           + of_bool (add_stop_tokens (example_encoder True True False False False))"
    by blast
  then have "(4::int) = resolved_max_length [''AC'', ''ACD''] None + of_bool True + of_bool False"
    unfolding a .
  with v e r show ?thesis by blast
qed






subsection \<open>Vocabulary construction\<close>

lemma add_token_Inr:
  assumes "add_token t n s = Inr s'" "vocabulary_ok s"
  shows "tokens s' = tokens s @ [t] \<and> vocabulary_ok s' \<and> config_eq s s'"
proof -
  from assms(1) have t: "length t = 1" "t \<notin> set (tokens s)"
    and s': "s' = s\<lparr>index_dict := index_dict s @ [(t, length (index_dict s))],
                     tokens_to_names := tokens_to_names s @ [(t, n)]\<rparr>"
    by (auto simp: add_token_def tokens_def split: if_splits)
  have len: "length (index_dict s) = length (tokens s)"
    using assms(2) by (metis vocabulary_ok_def length_zip length_upt min.idem diff_zero)
  have tok: "tokens s' = tokens s @ [t]" by (simp add: s' tokens_def)
  have ids: "index_dict s' = index_dict s @ [(t, length (index_dict s))]" by (simp add: s')
  have "index_dict s' = zip (tokens s') [0..<length (tokens s')]"
    unfolding tok ids using assms(2) len by (simp add: vocabulary_ok_def)
  then show ?thesis using tok t assms(2) by (auto simp: vocabulary_ok_def config_eq_def s')
qed

lemma add_token_if_Inr:
  assumes "add_token_if b t n s = Inr s'" "vocabulary_ok s"
  shows "tokens s' = tokens s @ (if b then [t] else []) \<and> vocabulary_ok s' \<and> config_eq s s'"
  using assms add_token_Inr[of t n s s']
  by (cases b) (auto simp: add_token_if_def config_eq_def)

lemma for_each_add_token_Inr:
  "for_each (\<lambda>aa. add_token (letter aa) (full_name aa)) alphabet s = Inr s' \<Longrightarrow> vocabulary_ok s \<Longrightarrow>
     tokens s' = tokens s @ map letter alphabet \<and> vocabulary_ok s' \<and> config_eq s s'"
proof (induction alphabet arbitrary: s)
  case Nil
  then show ?case by (simp add: config_eq_def)
next
  case (Cons aa alphabet)
  from Cons.prems(1) obtain s1 where
    s1: "add_token (letter aa) (full_name aa) s = Inr s1"
    and rest: "for_each (\<lambda>aa. add_token (letter aa) (full_name aa)) alphabet s1 = Inr s'"
    by (auto split: sum.splits)
  from add_token_Inr[OF s1 Cons.prems(2)] have
    a: "tokens s1 = tokens s @ [letter aa]" "vocabulary_ok s1" "config_eq s s1" by auto
  from Cons.IH[OF rest a(2)] show ?case using a by (auto simp: config_eq_def)
qed

lemma Encoder_init_Inr:
  assumes "Encoder_init alphabet vl st sp pos cen = Inr self"
  shows "tokens self = structural_tokens vl st sp @ map letter alphabet"
    and "vocabulary_ok self"
    and "amino_acid_alphabet self = alphabet"
    and "variable_length_sequences self = vl"
    and "add_start_tokens self = st"
    and "add_stop_tokens self = sp"
    and "add_normalized_position self = pos"
    and "add_normalized_centrality self = cen"
proof -
  define s0 where "s0 = \<lparr>amino_acid_alphabet = alphabet,
              variable_length_sequences = vl,
              add_start_tokens = st,
              add_stop_tokens = sp,
              add_normalized_position = pos,
              add_normalized_centrality = cen,
              tokens_to_names = [],
              index_dict = []\<rparr>"
  have ok0: "vocabulary_ok s0" and t0: "tokens s0 = []"
    by (simp_all add: vocabulary_ok_def tokens_def s0_def)
  from assms obtain s1 s2 s3 where
    s1: "add_token_if vl ''-'' ''Gap'' s0 = Inr s1"
    and s2: "add_token_if st ''^'' ''Start'' s1 = Inr s2"
    and s3: "add_token_if sp ''$'' ''Stop'' s2 = Inr s3"
    and s4: "for_each (\<lambda>aa. add_token (letter aa) (full_name aa)) alphabet s3 = Inr self"
    unfolding Encoder_init_def s0_def[symmetric] by (auto split: sum.splits)
  note a1 = add_token_if_Inr[OF s1 ok0]
  note a2 = add_token_if_Inr[OF s2 conjunct1[OF conjunct2[OF a1]]]
  note a3 = add_token_if_Inr[OF s3 conjunct1[OF conjunct2[OF a2]]]
  note a4 = for_each_add_token_Inr[OF s4 conjunct1[OF conjunct2[OF a3]]]
  show "tokens self = structural_tokens vl st sp @ map letter alphabet"
    using a1 a2 a3 a4 t0 by (simp add: structural_tokens_def)
  show "vocabulary_ok self" using a4 by simp
  have "config_eq s0 self" using a1 a2 a3 a4 by (simp add: config_eq_def)
  then show "amino_acid_alphabet self = alphabet"
    and "variable_length_sequences self = vl"
    and "add_start_tokens self = st"
    and "add_stop_tokens self = sp"
    and "add_normalized_position self = pos"
    and "add_normalized_centrality self = cen"
    by (simp_all add: config_eq_def s0_def)
qed

lemma vocabulary_ok_lookup:
  assumes "vocabulary_ok self" "i < length (tokens self)"
  shows "map_of (index_dict self) (tokens self ! i) = Some i"
proof -
  have d: "distinct (tokens self)" using assms(1) by (simp add: vocabulary_ok_def)
  have "map_of (zip (tokens self) [0..<length (tokens self)]) (tokens self ! i)
          = Some ([0..<length (tokens self)] ! i)"
    using assms(2) d by (intro map_of_zip_nth) auto
  then show ?thesis using assms by (simp add: vocabulary_ok_def)
qed

lemma Encoder_init_example:
  "Encoder_init example_alphabet vl st sp pos cen = Inr (example_encoder vl st sp pos cen)"
  by (cases vl; cases st; cases sp)
     (simp_all add: Encoder_init_def add_token_if_def add_token_def example_alphabet_def
        example_encoder_def structural_tokens_def upt_rec)

text \<open>
  Claim C5.  For every configuration and alphabet for which construction succeeds, the
  vocabulary has size (1 if variable-length) + (1 if start) + (1 if stop) + the size of
  the alphabet; the tokens are, in insertion order, the gap, start and stop tokens
  that are enabled and then the letters of the alphabet; the index of a token is its
  position in that order, so that the indices are 0, 1, 2, ...; and the gap token, when
  present, has index 0.
\<close>

theorem vocabulary_size_and_order:
  assumes "Encoder_init alphabet vl st sp pos cen = Inr self"
  shows "len self = of_bool vl + of_bool st + of_bool sp + length alphabet \<and>
         length (index_dict self) = len self \<and>
         tokens self = structural_tokens vl st sp @ map letter alphabet \<and>
         index_dict self = zip (tokens self) [0..<len self] \<and>
         (vl \<longrightarrow> dict_get (index_dict self) ''-'' = Inr 0)"
proof -
  note p = Encoder_init_Inr[OF assms]
  have t: "tokens self = structural_tokens vl st sp @ map letter alphabet" by (rule p(1))
  have l: "len self = of_bool vl + of_bool st + of_bool sp + length alphabet"
    by (simp add: len_def t structural_tokens_def)
  have z: "index_dict self = zip (tokens self) [0..<len self]"
    using p(2) by (simp add: vocabulary_ok_def len_def)
  have n: "length (index_dict self) = len self"
    by (subst z) (simp add: len_def)
  have g: "dict_get (index_dict self) ''-'' = Inr 0" if vl
  proof -
    have "0 < length (tokens self)" "tokens self ! 0 = ''-''"
      using that by (simp_all add: t structural_tokens_def)
    with vocabulary_ok_lookup[OF p(2), of 0] show ?thesis by (simp add: dict_get_def)
  qed
  show ?thesis using l n t z g by blast
qed

theorem vocabulary_size_and_order_witness:
  "Encoder_init example_alphabet True True True False False =
     Inr (example_encoder True True True False False) \<and>
   len (example_encoder True True True False False) = 6 \<and>
   tokens (example_encoder True True True False False) =
     [''-'', ''^'', ''$'', ''A'', ''C'', ''D''] \<and>
   dict_get (index_dict (example_encoder True True True False False)) ''-'' = Inr 0"
proof -
  note i = Encoder_init_example [of True True True False False]
  note t = vocabulary_size_and_order [OF i]
  have "len (example_encoder True True True False False) = 6"
    using t by (simp add: example_alphabet_def)
  moreover have "tokens (example_encoder True True True False False) =
     [''-'', ''^'', ''$'', ''A'', ''C'', ''D'']"
    using t by (simp add: example_alphabet_def structural_tokens_def)
  moreover have "dict_get (index_dict (example_encoder True True True False False)) ''-'' = Inr 0"
    using t by blast
  ultimately show ?thesis using i by simp
qed


subsection \<open>Errors of the fixed-shape encoders\<close>

text \<open>
  Claim C9.  Whatever the batch, \<open>encode_index_array\<close> raises its assertion error when
  \<open>add_normalized_position\<close> or \<open>add_normalized_centrality\<close> is enabled.
\<close>

theorem encode_index_array_rejects_extra_features:
  "add_normalized_position self \<or> add_normalized_centrality self \<Longrightarrow>
     encode_index_array self peptides max_peptide_length = Inl AssertionError"
  by (auto simp: encode_index_array_def)

theorem encode_index_array_rejects_extra_features_witness:
  "add_normalized_position (example_encoder True False False True False) \<and>
   encode_index_array (example_encoder True False False True False) [''AC''] None =
     Inl AssertionError"
  using encode_index_array_rejects_extra_features
          [of "example_encoder True False False True False" "[''AC'']" None]
  by (simp add: example_encoder_def)


lemma validate_and_prepare_empty:
  "max_peptide_length = None \<or> variable_length_sequences self \<Longrightarrow>
     validate_and_prepare_peptides self [] max_peptide_length = Inl EmptyMax"
  by (cases max_peptide_length)
     (auto simp: validate_and_prepare_peptides_def validate_peptide_lengths_def)

text \<open>
  Claim C10.  For the empty batch, \<open>encode_index_array\<close>, \<open>encode_onehot\<close>,
  \<open>encode_pmbec\<close> and \<open>encode_blosum\<close> raise an error whenever \<open>max_length\<close> is omitted
  or variable-length sequences are enabled: the error of \<open>max\<close> on an empty sequence
  (for \<open>encode_index_array\<close> its assertion error comes first when an extra feature is
  enabled).  None of them returns an array.
\<close>

theorem empty_batch_raises:
  assumes "max_peptide_length = None \<or> variable_length_sequences self"
  shows "encode_index_array self [] max_peptide_length =
           Inl (if add_normalized_centrality self \<or> add_normalized_position self
                then AssertionError else EmptyMax) \<and>
         encode_onehot self [] max_peptide_length = Inl EmptyMax \<and>
         encode_pmbec env self [] max_peptide_length = Inl EmptyMax \<and>
         encode_blosum env self [] max_peptide_length = Inl EmptyMax"
  using validate_and_prepare_empty[OF assms]
  by (simp add: encode_index_array_def encode_onehot_def encode_pmbec_def encode_blosum_def
        encode_from_pairwise_properties_def)

theorem empty_batch_raises_witness:
  "variable_length_sequences (example_encoder True False False False False) \<and>
   encode_index_array (example_encoder True False False False False) [] (Some 9) = Inl EmptyMax \<and>
   encode_onehot (example_encoder True False False False False) [] (Some 9) = Inl EmptyMax \<and>
   encode_pmbec example_pepdata (example_encoder True False False False False) [] (Some 9) =
     Inl EmptyMax \<and>
   encode_blosum example_pepdata (example_encoder True False False False False) [] (Some 9) =
     Inl EmptyMax"
  using empty_batch_raises
          [of "Some 9" "example_encoder True False False False False" example_pepdata]
  by (simp add: example_encoder_def)


subsection \<open>Sequence preparation\<close>

lemma prepare_sequences_None: "prepare_sequences self ps None = map (affix self) ps"
  by (induction ps) (simp_all add: prepare_sequences_def affix_def increment_def)

lemma prepare_sequences_Some:
  "prepare_sequences self ps (Some t) =
     map (\<lambda>p. affix self p @ replicate (nat (t - int (length p))) CHR ''-'') ps"
  by (auto simp: prepare_sequences_def affix_def increment_def pad_def Let_def nat_eq_iff)

text \<open>
  Claim C3, as amended.  For every peptide and every supplied \<open>target_length\<close>,
  \<open>prepare_sequences\<close> prepends the start token if enabled, appends the stop token if
  enabled, and right-pads the affixed string with \<open>target_length - len(peptide)\<close> gap
  tokens (none when the raw peptide is already that long): \<open>target_length\<close> counts the
  raw peptide only, and the padded string has \<open>target_length\<close> plus the number of
  enabled start and stop tokens characters.
\<close>

theorem prepare_sequences_pads_raw_length:
  "prepare_sequences self peptides (Some target_length) =
     map (\<lambda>p. affix self p @ replicate (nat (target_length - int (length p))) CHR ''-'') peptides"
  by (rule prepare_sequences_Some)


text \<open>
  The claim as stated fails: with both tokens enabled, \<open>["AC"]\<close> and
  \<open>target_length = 6\<close> give a string of eight characters.
\<close>

theorem prepare_target_length_counterexample:
  "prepare_sequences (example_encoder True True True False False) [''AC''] (Some 6) =
     [''^AC$----''] \<and>
   prepare_sequences (example_encoder True True True False False) [''AC''] (Some 6) \<noteq>
     [''^AC$--'']"
  by (simp add: prepare_sequences_def increment_def pad_def example_encoder_def
        numeral_eq_Suc)

subsection \<open>Loops that fill an array\<close>

lemma map_err_cong: "(\<And>x. x \<in> set xs \<Longrightarrow> f x = g x) \<Longrightarrow> map_err f xs = map_err g xs"
  by (induction xs) (auto split: sum.splits)

lemma map_err_Inr_iff:
  "map_err f xs = Inr ys \<longleftrightarrow> length ys = length xs \<and> (\<forall>i<length xs. f (xs ! i) = Inr (ys ! i))"
proof (induction xs arbitrary: ys)
  case Nil
  then show ?case by auto
next
  case (Cons x xs)
  show ?case
  proof (cases ys)
    case Nil
    then show ?thesis by (auto split: sum.splits)
  next
    case (Cons y ys')
    then show ?thesis using Cons.IH[of ys']
      by (auto split: sum.splits simp: nth_Cons' less_Suc_eq_0_disj)
  qed
qed

lemma map_err_enumerate: "map_err (\<lambda>(i, a). g a) (enumerate k as) = map_err g as"
  by (induction as arbitrary: k) (auto split: sum.splits)

lemma for_each_lift:
  assumes "\<And>x X. i < length X \<Longrightarrow>
             F x X = (case G x (X ! i) of Inl e \<Rightarrow> Inl e | Inr r \<Rightarrow> Inr (X[i := r]))"
    and "i < length X"
  shows "for_each F xs X =
           (case for_each G xs (X ! i) of Inl e \<Rightarrow> Inl e | Inr r \<Rightarrow> Inr (X[i := r]))"
  using assms(2)
proof (induction xs arbitrary: X)
  case Nil
  then show ?case by simp
next
  case (Cons x xs)
  show ?case
  proof (cases "G x (X ! i)")
    case (Inl e)
    then show ?thesis using assms(1)[OF Cons.prems, of x] by simp
  next
    case (Inr r)
    have F: "F x X = Inr (X[i := r])" using assms(1)[OF Cons.prems, of x] Inr by simp
    have "i < length (X[i := r])" using Cons.prems by simp
    from Cons.IH[OF this] show ?thesis using F Inr Cons.prems by (simp split: sum.splits)
  qed
qed

lemma for_each_update:
  assumes "\<And>i a xs. i < length xs \<Longrightarrow> P a (xs ! i) \<Longrightarrow>
             f (i, a) xs = (case h a (xs ! i) of Inl e \<Rightarrow> Inl e | Inr c \<Rightarrow> Inr (xs[i := c]))"
    and "k + length as \<le> length xs"
    and "\<forall>j<length as. P (as ! j) (xs ! (k + j))"
  shows "for_each f (enumerate k as) xs =
           (case map_err (\<lambda>(i, a). h a (xs ! i)) (enumerate k as) of
              Inl e \<Rightarrow> Inl e
            | Inr cs \<Rightarrow> Inr (take k xs @ cs @ drop (k + length as) xs))"
  using assms(2,3)
proof (induction as arbitrary: k xs)
  case Nil
  then show ?case by simp
next
  case (Cons a as)
  have k: "k < length xs" using Cons.prems by simp
  have Pk: "P a (xs ! k)" using Cons.prems(2) by force
  note step = assms(1)[OF k Pk]
  show ?case
  proof (cases "h a (xs ! k)")
    case (Inl e)
    then show ?thesis using step by simp
  next
    case (Inr c)
    define xs1 where "xs1 = xs[k := c]"
    have f: "f (k, a) xs = Inr xs1" using step Inr by (simp add: xs1_def)
    have l1: "Suc k + length as \<le> length xs1" using Cons.prems by (simp add: xs1_def)
    have P1: "\<forall>j<length as. P (as ! j) (xs1 ! (Suc k + j))"
    proof (intro allI impI)
      fix j assume "j < length as"
      then have "P ((a # as) ! Suc j) (xs ! (k + Suc j))" using Cons.prems(2) by force
      then show "P (as ! j) (xs1 ! (Suc k + j))" by (simp add: xs1_def)
    qed
    have cong: "map_err (\<lambda>(i, a). h a (xs1 ! i)) (enumerate (Suc k) as) =
                map_err (\<lambda>(i, a). h a (xs ! i)) (enumerate (Suc k) as)"
      by (rule map_err_cong) (auto simp: in_set_enumerate_eq xs1_def)
    have t: "take (Suc k) xs1 = take k xs @ [c]"
      using k by (simp add: xs1_def take_Suc_conv_app_nth)
    have d: "drop (Suc (k + length as)) xs1 = drop (Suc (k + length as)) xs"
      by (simp add: xs1_def)
    show ?thesis
      using Cons.IH[OF l1 P1] f Inr
      by (simp add: cong t d split: sum.splits)
  qed
qed

lemma fill_loop:
  assumes F: "\<And>i j a X. i < length X \<Longrightarrow> j < length (X ! i) \<Longrightarrow>
             f i (j, a) X =
               (case h a (X ! i ! j) of Inl e \<Rightarrow> Inl e | Inr c \<Rightarrow> Inr (X[i := (X ! i)[j := c]]))"
    and len: "\<forall>p \<in> set ps. length p \<le> w"
  shows "for_each (\<lambda>(i, p). for_each (f i) (enumerate 0 p)) (enumerate 0 ps)
           (replicate (length ps) (replicate w z)) =
         (case map_err (\<lambda>p. map_err (\<lambda>a. h a z) p) ps of
            Inl e \<Rightarrow> Inl e
          | Inr css \<Rightarrow> Inr (map (\<lambda>cs. cs @ replicate (w - length cs) z) css))"
proof -
  define R where "R = (\<lambda>p row.
     case map_err (\<lambda>(j, a). h a (row ! j)) (enumerate 0 p) of
       Inl e \<Rightarrow> Inl e
     | Inr cs \<Rightarrow> Inr (cs @ drop (length p) row))"
  have inner: "for_each (f i) (enumerate 0 p) X =
      (case R p (X ! i) of Inl e \<Rightarrow> Inl e | Inr r \<Rightarrow> Inr (X[i := r]))"
    if "i < length X" "length p \<le> length (X ! i)" for i p X
  proof -
    define G' where "G' = (\<lambda>(j, a) row.
       if j < length row then (case h a (row ! j) of Inl e \<Rightarrow> Inl e | Inr c \<Rightarrow> Inr (row[j := c]))
       else Inl IndexError)"
    define F' where "F' = (\<lambda>(j, a) X.
       if j < length (X ! i) then f i (j, a) X else
         Inl IndexError)"
    have same: "for_each (f i) (enumerate k p) X = for_each F' (enumerate k p) X"
      if "k + length p \<le> length (X ! i)" "i < length X" for k X
      using that
    proof (induction p arbitrary: k X)
      case Nil
      then show ?case by simp
    next
      case (Cons a p)
      have "F' (k, a) X = f i (k, a) X" using Cons.prems by (simp add: F'_def)
      moreover have "for_each (f i) (enumerate (Suc k) p) X' = for_each F' (enumerate (Suc k) p) X'"
        if "f i (k, a) X = Inr X'" for X'
      proof -
        from that F[of i X k a] Cons.prems
        obtain c where "X' = X[i := (X ! i)[k := c]]" by (auto split: sum.splits)
        then show ?thesis using Cons.prems by (intro Cons.IH) auto
      qed
      ultimately show ?case by (auto split: sum.splits)
    qed
    have lift: "for_each F' (enumerate 0 p) X =
           (case for_each G' (enumerate 0 p) (X ! i) of Inl e \<Rightarrow> Inl e | Inr r \<Rightarrow> Inr (X[i := r]))"
      by (rule for_each_lift[OF _ that(1)])
         (auto simp: F'_def G'_def F split: sum.splits prod.splits)
    have "for_each G' (enumerate 0 p) (X ! i) =
           (case map_err (\<lambda>(j, a). h a (X ! i ! j)) (enumerate 0 p) of
              Inl e \<Rightarrow> Inl e
            | Inr cs \<Rightarrow> Inr (take 0 (X ! i) @ cs @ drop (0 + length p) (X ! i)))"
      by (rule for_each_update[where P = "\<lambda>_ _. True"]) (use that in \<open>auto simp: G'_def\<close>)
    then show ?thesis using same[of 0 X] that lift by (simp add: R_def split: sum.splits)
  qed
  define X0 where "X0 = replicate (length ps) (replicate w z)"
  have outer: "for_each (\<lambda>(i, p). for_each (f i) (enumerate 0 p)) (enumerate 0 ps) X0 =
      (case map_err (\<lambda>(i, p). R p (X0 ! i)) (enumerate 0 ps) of
         Inl e \<Rightarrow> Inl e
       | Inr rows \<Rightarrow> Inr (take 0 X0 @ rows @ drop (0 + length ps) X0))"
  proof (rule for_each_update[where P = "\<lambda>p row. length p \<le> length row"])
    show "0 + length ps \<le> length X0" by (simp add: X0_def)
    show "\<forall>j<length ps. length (ps ! j) \<le> length (X0 ! (0 + j))"
      using len by (simp add: X0_def)
    show "(case (i, a) of (i, p) \<Rightarrow> for_each (f i) (enumerate 0 p)) xs =
       (case R a (xs ! i) of Inl e \<Rightarrow> Inl e | Inr c \<Rightarrow> Inr (xs[i := c]))"
      if "i < length xs" "length a \<le> length (xs ! i)" for i a xs
      using inner[OF that] by simp
  qed
  have rows: "map_err (\<lambda>(i, p). R p (X0 ! i)) (enumerate 0 ps) =
              map_err (\<lambda>p. R p (replicate w z)) ps"
  proof -
    have "map_err (\<lambda>(i, p). R p (X0 ! i)) (enumerate 0 ps) =
          map_err (\<lambda>(i, p). R p (replicate w z)) (enumerate 0 ps)"
      by (rule map_err_cong) (auto simp: in_set_enumerate_eq X0_def)
    then show ?thesis by (simp add: map_err_enumerate)
  qed
  have Rz: "R p (replicate w z) =
      (case map_err (\<lambda>a. h a z) p of
         Inl e \<Rightarrow> Inl e | Inr cs \<Rightarrow> Inr (cs @ replicate (w - length cs) z))"
    if "p \<in> set ps" for p
  proof -
    have "map_err (\<lambda>(j, a). h a (replicate w z ! j)) (enumerate 0 p) =
          map_err (\<lambda>(j, a). h a z) (enumerate 0 p)"
      using len that by (intro map_err_cong) (auto simp: in_set_enumerate_eq)
    then have m: "map_err (\<lambda>(j, a). h a (replicate w z ! j)) (enumerate 0 p) =
          map_err (\<lambda>a. h a z) p" by (simp add: map_err_enumerate)
    show ?thesis
    proof (cases "map_err (\<lambda>a. h a z) p")
      case (Inl e)
      then show ?thesis by (simp add: R_def m)
    next
      case (Inr cs)
      then have "length cs = length p" by (simp add: map_err_Inr_iff)
      then show ?thesis using Inr by (simp add: R_def m)
    qed
  qed
  have nested: "map_err (\<lambda>p. R p (replicate w z)) ps =
      (case map_err (\<lambda>p. map_err (\<lambda>a. h a z) p) ps of
         Inl e \<Rightarrow> Inl e
       | Inr css \<Rightarrow> Inr (map (\<lambda>cs. cs @ replicate (w - length cs) z) css))"
    using Rz
  proof (induction ps)
    case Nil
    then show ?case by simp
  next
    case (Cons p ps)
    then show ?case by (auto split: sum.splits)
  qed
  show ?thesis
  proof (cases "map_err (\<lambda>p. map_err (\<lambda>a. h a z) p) ps")
    case (Inl e)
    then show ?thesis using outer rows nested by (simp add: X0_def)
  next
    case (Inr css)
    then have "length css = length ps" by (simp add: map_err_Inr_iff)
    then show ?thesis using outer rows nested Inr by (simp add: X0_def)
  qed
qed

subsection \<open>Index encoding\<close>

lemma validate_Inr:
  assumes "validate_peptide_lengths self ps ml = Inr m"
  shows "m = resolved_max_length ps ml"
    and "\<forall>p \<in> set ps. int (length p) \<le> m"
    and "\<not> variable_length_sequences self \<Longrightarrow> \<forall>p \<in> set ps. int (length p) = m"
proof -
  have "m = resolved_max_length ps ml \<and> (\<forall>p \<in> set ps. int (length p) \<le> m) \<and>
        (\<not> variable_length_sequences self \<longrightarrow> (\<forall>p \<in> set ps. int (length p) = m))"
  proof (cases "variable_length_sequences self")
    case True
    show ?thesis using assms True unfolding validate_variable[OF True]
      by (auto split: if_splits simp: not_less)
  next
    case False
    show ?thesis using assms False unfolding validate_fixed[OF False]
      by (auto split: if_splits)
  qed
  then show "m = resolved_max_length ps ml"
    and "\<forall>p \<in> set ps. int (length p) \<le> m"
    and "\<not> variable_length_sequences self \<Longrightarrow> \<forall>p \<in> set ps. int (length p) = m"
    by auto
qed

lemma length_affix:
  "length (affix self p) =
     length p + of_bool (add_start_tokens self) + of_bool (add_stop_tokens self)"
  by (simp add: affix_def)

lemma validate_and_prepare_Inr:
  assumes "validate_and_prepare_peptides self ps ml = Inr (prepared, L)"
  shows "prepared = map (affix self) ps"
    and "L = resolved_max_length ps ml + of_bool (add_start_tokens self)
               + of_bool (add_stop_tokens self)"
    and "\<forall>p \<in> set ps. int (length (affix self p)) \<le> L"
    and "\<not> variable_length_sequences self \<Longrightarrow> \<forall>p \<in> set ps. int (length (affix self p)) = L"
proof -
  from assms obtain m where m: "validate_peptide_lengths self ps ml = Inr m"
    and p: "prepared = prepare_sequences self ps None"
    and L: "L = m + of_bool (add_start_tokens self) + of_bool (add_stop_tokens self)"
    by (auto simp: validate_and_prepare_peptides_def split: sum.splits)
  note v = validate_Inr[OF m]
  show "prepared = map (affix self) ps" using p by (simp add: prepare_sequences_None)
  show "L = resolved_max_length ps ml + of_bool (add_start_tokens self)
               + of_bool (add_stop_tokens self)" using L v(1) by simp
  show "\<forall>p \<in> set ps. int (length (affix self p)) \<le> L"
    using v(2) L by (auto simp: length_affix)
  show "\<forall>p \<in> set ps. int (length (affix self p)) = L" if "\<not> variable_length_sequences self"
    using v(3)[OF that] L by (auto simp: length_affix)
qed

lemma encode_index_array_closed:
  assumes "\<not> add_normalized_centrality self" "\<not> add_normalized_position self"
    and "validate_and_prepare_peptides self ps ml = Inr (prepared, L)" "0 \<le> L"
  shows "encode_index_array self ps ml =
     (case map_err (\<lambda>p. map_err (\<lambda>a. dict_get (index_dict self) [a]) p) prepared of
        Inl e \<Rightarrow> Inl e
      | Inr vss \<Rightarrow> Inr (map (\<lambda>vs. vs @ replicate (nat L - length vs) 0) vss))"
proof -
  note v = validate_and_prepare_Inr[OF assms(3)]
  have len: "\<forall>p \<in> set prepared. length p \<le> nat L"
    using v(1,3) by auto
  have "for_each (\<lambda>(i, p). for_each
           (\<lambda>(j, amino_acid) X.
               case dict_get (index_dict self) [amino_acid] of
                 Inl e \<Rightarrow> Inl e
               | Inr v \<Rightarrow> setitem2 i j v X) (enumerate 0 p)) (enumerate 0 prepared)
           (replicate (length prepared) (replicate (nat L) 0)) =
         (case map_err (\<lambda>p. map_err (\<lambda>a. dict_get (index_dict self) [a]) p) prepared of
            Inl e \<Rightarrow> Inl e
          | Inr css \<Rightarrow> Inr (map (\<lambda>cs. cs @ replicate (nat L - length cs) 0) css))"
    by (rule fill_loop[where f = "\<lambda>i (j, amino_acid) X.
               case dict_get (index_dict self) [amino_acid] of
                 Inl e \<Rightarrow> Inl e
               | Inr v \<Rightarrow> setitem2 i j v X"
           and h = "\<lambda>a cell. dict_get (index_dict self) [a]", OF _ len])
       (auto simp: setitem2_def split: sum.splits)
  then show ?thesis using assms
    by (simp add: encode_index_array_def np_zeros2_def)
qed

lemma vocabulary_ok_dict_get:
  assumes "vocabulary_ok self" "dict_get (index_dict self) t = Inr v"
  shows "v < length (tokens self) \<and> tokens self ! v = t"
proof -
  from assms(2) have "map_of (index_dict self) t = Some v"
    by (auto simp: dict_get_def split: option.splits)
  then have "(t, v) \<in> set (zip (tokens self) [0..<length (tokens self)])"
    using assms(1) by (auto simp: vocabulary_ok_def dest: map_of_SomeD)
  then show ?thesis by (auto simp: in_set_zip)
qed

lemma vocabulary_ok_decode:
  assumes "vocabulary_ok self" "v < length (tokens self)"
  shows "decode_token self v = Some (tokens self ! v)"
proof -
  have "map (\<lambda>(token, index). (index, token)) (index_dict self) =
        zip [0..<length (tokens self)] (tokens self)"
    using assms(1) by (simp add: vocabulary_ok_def zip_commute[of "tokens self"] case_prod_beta
          prod.swap_def[symmetric] split_def)
  then have "decode_token self v = map_of (zip [0..<length (tokens self)] (tokens self)) v"
    by (simp add: decode_token_def)
  also have "\<dots> = Some (tokens self ! v)"
    using map_of_zip_nth[of "[0..<length (tokens self)]" "tokens self" v] assms(2) by simp
  finally show ?thesis .
qed

lemma index_rows_decode:
  assumes ok: "vocabulary_ok self"
    and m: "map_err (\<lambda>a. dict_get (index_dict self) [a]) p = Inr vs"
  shows "map (decode_token self) vs = map (\<lambda>c. Some [c]) p"
proof (rule nth_equalityI)
  have l: "length vs = length p" using m by (simp add: map_err_Inr_iff)
  then show "length (map (decode_token self) vs) = length (map (\<lambda>c. Some [c]) p)" by simp
  fix i assume "i < length (map (decode_token self) vs)"
  then have i: "i < length p" using l by simp
  then have "dict_get (index_dict self) [p ! i] = Inr (vs ! i)"
    using m by (simp add: map_err_Inr_iff)
  from vocabulary_ok_dict_get[OF ok this] vocabulary_ok_decode[OF ok, of "vs ! i"]
  show "map (decode_token self) vs ! i = map (\<lambda>c. Some [c]) p ! i"
    using i l by simp
qed

text \<open>
  Claim C8.  For every batch for which \<open>encode_index_array\<close> returns, on an encoder
  built by the constructor, mapping each integer of the matrix back to its token through
  the inverse of the index table gives, row by row, the prepared peptide: the raw
  peptide with its start and stop tokens, padded with gap tokens to the effective
  length (which is what \<open>prepare_sequences\<close> returns for the resolved \<open>max_length\<close>).
\<close>

theorem encode_index_array_round_trip:
  assumes init: "Encoder_init alphabet vl st sp pos cen = Inr self"
    and enc: "encode_index_array self peptides ml = Inr X"
  shows "map (map (decode_token self)) X =
         map (map (\<lambda>c. Some [c]))
           (prepare_sequences self peptides (Some (resolved_max_length peptides ml)))"
proof -
  note p = Encoder_init_Inr[OF init]
  have flags: "\<not> add_normalized_centrality self" "\<not> add_normalized_position self"
    using enc by (auto simp: encode_index_array_def split: if_splits)
  from enc flags obtain prepared L where
    vap: "validate_and_prepare_peptides self peptides ml = Inr (prepared, L)"
    by (auto simp: encode_index_array_def split: sum.splits)
  note v = validate_and_prepare_Inr[OF vap]
  have L0: "0 \<le> L"
    using enc flags vap by (auto simp: encode_index_array_def np_zeros2_def split: if_splits)
  define m where "m = resolved_max_length peptides ml"
  from enc obtain vss where
    vss: "map_err (\<lambda>p. map_err (\<lambda>a. dict_get (index_dict self) [a]) p) prepared = Inr vss"
    and X: "X = map (\<lambda>vs. vs @ replicate (nat L - length vs) 0) vss"
    unfolding encode_index_array_closed[OF flags vap L0] by (auto split: sum.splits)
  have lv: "length vss = length peptides"
    using vss v(1) by (simp add: map_err_Inr_iff)
  have gap: "decode_token self 0 = Some ''-''" if "variable_length_sequences self"
  proof -
    have "0 < length (tokens self)" "tokens self ! 0 = ''-''"
      using that p(1,4) by (auto simp: structural_tokens_def)
    then show ?thesis using vocabulary_ok_decode[OF p(2), of 0] by simp
  qed
  show ?thesis
  proof (rule nth_equalityI)
    show "length (map (map (decode_token self)) X) =
      length (map (map (\<lambda>c. Some [c])) (prepare_sequences self peptides (Some (resolved_max_length peptides ml))))"
      using lv by (simp add: X prepare_sequences_Some)
    fix i assume "i < length (map (map (decode_token self)) X)"
    then have i: "i < length peptides" using lv by (simp add: X)
    define q where "q = peptides ! i"
    have qin: "q \<in> set peptides" using i by (simp add: q_def)
    have row: "map_err (\<lambda>a. dict_get (index_dict self) [a]) (affix self q) = Inr (vss ! i)"
      using vss i v(1) by (simp add: map_err_Inr_iff q_def)
    have lrow: "length (vss ! i) = length (affix self q)"
      using row by (simp add: map_err_Inr_iff)
    have dec: "map (decode_token self) (vss ! i) = map (\<lambda>c. Some [c]) (affix self q)"
      by (rule index_rows_decode[OF p(2) row])
    have padn: "nat L - length (affix self q) = nat (m - int (length q))"
      using v(2,3) qin by (auto simp: length_affix m_def)
    have padv: "replicate (nat (m - int (length q))) (decode_token self 0) =
                replicate (nat (m - int (length q))) (Some ''-'')"
    proof (cases "variable_length_sequences self")
      case True
      then show ?thesis by (simp add: gap)
    next
      case False
      from v(4)[OF False] qin v(2) have "int (length q) = m"
        by (auto simp: length_affix m_def)
      then show ?thesis by simp
    qed
    show "map (map (decode_token self)) X ! i =
          map (map (\<lambda>c. Some [c]))
            (prepare_sequences self peptides (Some (resolved_max_length peptides ml))) ! i"
      using i lv dec lrow padn padv
      by (simp add: X prepare_sequences_Some q_def[symmetric] m_def[symmetric])
  qed
qed

theorem encode_index_array_round_trip_witness:
  "encode_index_array (example_encoder True True False False False) [''AC'', ''ACD''] None =
     Inr [[1, 2, 3, 0], [1, 2, 3, 4]] \<and>
   map (map (decode_token (example_encoder True True False False False)))
     [[1, 2, 3, 0], [1, 2, 3, 4]] =
   map (map (\<lambda>c. Some [c])) [''^AC-'', ''^ACD'']"
proof -
  have e: "encode_index_array (example_encoder True True False False False)
             [''AC'', ''ACD''] None = Inr [[1, 2, 3, 0], [1, 2, 3, 4]]"
    by code_simp
  have p: "prepare_sequences (example_encoder True True False False False) [''AC'', ''ACD'']
             (Some (resolved_max_length [''AC'', ''ACD''] None)) = [''^AC-'', ''^ACD'']"
    by (simp add: prepare_sequences_Some resolved_max_length_def affix_def example_encoder_def)
  from encode_index_array_round_trip [OF Encoder_init_example e] show ?thesis
    using e unfolding p by simp
qed


end
